theory Spec2Isabelle
  imports Main
begin

section \<open>Data model\<close>

text \<open>
  The repository holds two variants of one Y.js WebSocket server: \<^verbatim>\<open>src/server.cjs\<close> and
  \<^verbatim>\<open>src/unnamed/part_000\<close>. Both keep a registry \<^verbatim>\<open>activeRooms\<close> (a JavaScript
  \<^verbatim>\<open>Map\<close> from room name to a room object) and the counters \<^verbatim>\<open>connectionStats\<close>;
  the second variant also keeps \<^verbatim>\<open>docs\<close>, a \<^verbatim>\<open>Map\<close> from room name to a Y.Doc.

  A \<^verbatim>\<open>Date\<close> is a number of milliseconds. The counters are JavaScript numbers that are only
  ever incremented and decremented by one, so they are integers; they are modelled as
  unbounded \<open>int\<close>, and nothing stops them from being negative.
\<close>

type_synonym date = nat

record room =
  createdAt :: date
  connectionCount :: int
  lastActivity :: date

record stats =
  totalConnections :: int
  activeConnections :: int
  roomsCreated :: int

subsection \<open>JavaScript \<^verbatim>\<open>Map\<close>\<close>

text \<open>
  A \<^verbatim>\<open>Map\<close> iterates in insertion order, \<^verbatim>\<open>set\<close> on a key that is present keeps the
  key's position, and \<^verbatim>\<open>get\<close> on a missing key is \<^verbatim>\<open>undefined\<close>. It is an association
  list with the newest key last; \<^verbatim>\<open>undefined\<close> is \<open>None\<close>.
\<close>

type_synonym ('k, 'v) jsmap = "('k \<times> 'v) list"

definition map_has :: "'k \<Rightarrow> ('k, 'v) jsmap \<Rightarrow> bool" where
  "map_has k m = (map_of m k \<noteq> None)"

definition map_get :: "'k \<Rightarrow> ('k, 'v) jsmap \<Rightarrow> 'v option" where
  "map_get k m = map_of m k"

fun map_set :: "'k \<Rightarrow> 'v \<Rightarrow> ('k, 'v) jsmap \<Rightarrow> ('k, 'v) jsmap" where
  "map_set k v [] = [(k, v)]"
| "map_set k v ((k', v') # m) =
     (if k' = k then (k, v) # m else (k', v') # map_set k v m)"

fun map_delete :: "'k \<Rightarrow> ('k, 'v) jsmap \<Rightarrow> ('k, 'v) jsmap" where
  "map_delete k [] = []"
| "map_delete k ((k', v') # m) =
     (if k' = k then m else (k', v') # map_delete k m)"

definition map_size :: "('k, 'v) jsmap \<Rightarrow> nat" where
  "map_size m = length m"

subsection \<open>Server state\<close>

record server =
  activeRooms :: "(string, room) jsmap"
  connectionStats :: stats

text \<open>
  The Y.Doc of a room belongs to the synchronisation engine; the server only stores the
  object and never reads it, so it is a single opaque value.
\<close>

datatype ydoc = YDoc

record doc_server = server +
  docs :: "(string, ydoc) jsmap"

definition initial :: server where
  "initial = \<lparr>activeRooms = [],
     connectionStats = \<lparr>totalConnections = 0, activeConnections = 0, roomsCreated = 0\<rparr>\<rparr>"

definition initial_docs :: doc_server where
  "initial_docs = \<lparr>activeRooms = [],
     connectionStats = \<lparr>totalConnections = 0, activeConnections = 0, roomsCreated = 0\<rparr>,
     docs = []\<rparr>"

text \<open>
  Reading a property of \<^verbatim>\<open>undefined\<close> throws a \<^verbatim>\<open>TypeError\<close>; this is the only exception
  the handlers could raise on the registry.
\<close>

datatype js_error = TypeError

section \<open>Room name of a connection\<close>

text \<open>
  \<^verbatim>\<open>const url = req.url; const roomName = url ? url.slice(1) : 'default';\<close>
  (\<^verbatim>\<open>server.cjs\<close> lines 43-44, \<^verbatim>\<open>part_000\<close> lines 61-62, the same text).
  \<^verbatim>\<open>req.url\<close> is a string or \<^verbatim>\<open>undefined\<close>; \<^verbatim>\<open>undefined\<close> and the empty string are falsy,
  every other string is truthy. \<^verbatim>\<open>slice(1)\<close> drops the first character, whatever it is.
\<close>

definition roomName :: "string option \<Rightarrow> string" where
  "roomName url =
     (case url of
        None \<Rightarrow> ''default''
      | Some u \<Rightarrow> if u \<noteq> [] then drop 1 u else ''default'')"

section \<open>The handlers of \<^verbatim>\<open>server.cjs\<close>\<close>

text \<open>
  The \<^verbatim>\<open>connection\<close> handler (lines 39-62). The three \<^verbatim>\<open>new Date()\<close> readings of one run are
  \<open>t1\<close> (\<^verbatim>\<open>createdAt\<close>), \<open>t2\<close> (the first \<^verbatim>\<open>lastActivity\<close>) and \<open>t3\<close> (the refreshed
  \<^verbatim>\<open>lastActivity\<close>). The handler returns the room name its \<^verbatim>\<open>close\<close> closure captures and
  the new state. \<^verbatim>\<open>roomData\<close> is a reference to the object stored in the map, so the
  increment is written back under the same key. Logging and the call of the external
  \<^verbatim>\<open>setupWSConnection\<close> do not touch the registry and are left out.
\<close>

definition on_connection ::
  "date \<times> date \<times> date \<Rightarrow> string option \<Rightarrow> server \<Rightarrow> js_error + (string \<times> server)" where
  "on_connection ts url s =
     (case ts of (t1, t2, t3) \<Rightarrow>
      let st1 = (connectionStats s)\<lparr>totalConnections := totalConnections (connectionStats s) + 1\<rparr>;
          st2 = st1\<lparr>activeConnections := activeConnections st1 + 1\<rparr>;
          name = roomName url;
          s1 = s\<lparr>connectionStats := st2\<rparr>;
          s2 = (if \<not> map_has name (activeRooms s1)
                then s1\<lparr>activeRooms :=
                          map_set name
                            \<lparr>createdAt = t1, connectionCount = 0, lastActivity = t2\<rparr>
                            (activeRooms s1),
                        connectionStats :=
                          st2\<lparr>roomsCreated := roomsCreated st2 + 1\<rparr>\<rparr>
                else s1)
      in case map_get name (activeRooms s2) of
           None \<Rightarrow> Inl TypeError
         | Some roomData \<Rightarrow>
             Inr (name,
                  s2\<lparr>activeRooms :=
                       map_set name
                         (roomData\<lparr>connectionCount := connectionCount roomData + 1,
                                   lastActivity := t3\<rparr>)
                         (activeRooms s2)\<rparr>))"

text \<open>
  The \<^verbatim>\<open>close\<close> handler (lines 71-86), with the room name captured by its closure.
\<close>

definition on_close :: "string \<Rightarrow> server \<Rightarrow> js_error + server" where
  "on_close name s =
     (let st1 = (connectionStats s)\<lparr>activeConnections := activeConnections (connectionStats s) - 1\<rparr>;
          s1 = s\<lparr>connectionStats := st1\<rparr>
      in if map_has name (activeRooms s1)
         then (case map_get name (activeRooms s1) of
                 None \<Rightarrow> Inl TypeError
               | Some roomData \<Rightarrow>
                   let roomData' = roomData\<lparr>connectionCount := connectionCount roomData - 1\<rparr>;
                       rooms' = map_set name roomData' (activeRooms s1)
                   in if connectionCount roomData' \<le> 0
                      then Inr (s1\<lparr>activeRooms := map_delete name rooms'\<rparr>)
                      else Inr (s1\<lparr>activeRooms := rooms'\<rparr>))
         else Inr s1)"

section \<open>The handlers of \<^verbatim>\<open>part_000\<close>\<close>

text \<open>
  \<^verbatim>\<open>getYDoc\<close> (lines 41-55): the stored document, or a new one that is stored first. A
  Y.Doc is an object, hence truthy; \<^verbatim>\<open>!doc\<close> holds exactly when the key is missing.
\<close>

definition getYDoc :: "string \<Rightarrow> doc_server \<Rightarrow> ydoc \<times> doc_server" where
  "getYDoc name s =
     (case map_get name (docs s) of
        None \<Rightarrow> (YDoc, s\<lparr>docs := map_set name YDoc (docs s)\<rparr>)
      | Some doc \<Rightarrow> (doc, s))"

text \<open>The \<^verbatim>\<open>connection\<close> handler (lines 57-89).\<close>

definition on_connection_docs ::
  "date \<times> date \<times> date \<Rightarrow> string option \<Rightarrow> doc_server \<Rightarrow> js_error + (string \<times> doc_server)" where
  "on_connection_docs ts url s =
     (case ts of (t1, t2, t3) \<Rightarrow>
      let st1 = (connectionStats s)\<lparr>totalConnections := totalConnections (connectionStats s) + 1\<rparr>;
          st2 = st1\<lparr>activeConnections := activeConnections st1 + 1\<rparr>;
          name = roomName url;
          s1 = s\<lparr>connectionStats := st2\<rparr>;
          s2 = (if \<not> map_has name (activeRooms s1)
                then s1\<lparr>activeRooms :=
                          map_set name
                            \<lparr>createdAt = t1, connectionCount = 0, lastActivity = t2\<rparr>
                            (activeRooms s1),
                        connectionStats :=
                          st2\<lparr>roomsCreated := roomsCreated st2 + 1\<rparr>\<rparr>
                else s1)
      in case map_get name (activeRooms s2) of
           None \<Rightarrow> Inl TypeError
         | Some roomData \<Rightarrow>
             let s3 = s2\<lparr>activeRooms :=
                          map_set name
                            (roomData\<lparr>connectionCount := connectionCount roomData + 1,
                                      lastActivity := t3\<rparr>)
                            (activeRooms s2)\<rparr>
             in case getYDoc name s3 of (doc, s4) \<Rightarrow> Inr (name, s4))"

text \<open>The \<^verbatim>\<open>close\<close> handler (lines 92-107). It never mentions \<^verbatim>\<open>docs\<close>.\<close>

definition on_close_docs :: "string \<Rightarrow> doc_server \<Rightarrow> js_error + doc_server" where
  "on_close_docs name s =
     (let st1 = (connectionStats s)\<lparr>activeConnections := activeConnections (connectionStats s) - 1\<rparr>;
          s1 = s\<lparr>connectionStats := st1\<rparr>
      in if map_has name (activeRooms s1)
         then (case map_get name (activeRooms s1) of
                 None \<Rightarrow> Inl TypeError
               | Some roomData \<Rightarrow>
                   let roomData' = roomData\<lparr>connectionCount := connectionCount roomData - 1\<rparr>;
                       rooms' = map_set name roomData' (activeRooms s1)
                   in if connectionCount roomData' \<le> 0
                      then Inr (s1\<lparr>activeRooms := map_delete name rooms'\<rparr>)
                      else Inr (s1\<lparr>activeRooms := rooms'\<rparr>))
         else Inr s1)"

section \<open>Connections and their events\<close>

text \<open>
  The \<^verbatim>\<open>close\<close> handler is registered inside the \<^verbatim>\<open>connection\<close> handler, on the socket of
  that connection, and a socket emits \<^verbatim>\<open>close\<close> once. So a close event belongs to a
  connection that was opened and has not closed yet, and it runs with the room name that
  connection resolved when it opened. The open sockets are kept as the list of their
  captured room names, oldest first; \<open>Close i\<close> closes the \<open>i\<close>-th open socket.
  A trace that closes a socket that is not open cannot happen (\<open>NoSuchSocket\<close>).
  An exception that escapes a handler ends the run (\<open>Raised\<close>).
\<close>

datatype event =
  Connect "string option" "date \<times> date \<times> date"
| Close nat

datatype failure = NoSuchSocket | Raised js_error

type_synonym 's world = "'s \<times> string list"

fun step ::
  "(date \<times> date \<times> date \<Rightarrow> string option \<Rightarrow> 's \<Rightarrow> js_error + (string \<times> 's)) \<Rightarrow>
   (string \<Rightarrow> 's \<Rightarrow> js_error + 's) \<Rightarrow> event \<Rightarrow> 's world \<Rightarrow> failure + 's world" where
  "step conn cls (Connect url ts) (s, socks) =
     (case conn ts url s of
        Inl e \<Rightarrow> Inl (Raised e)
      | Inr (name, s') \<Rightarrow> Inr (s', socks @ [name]))"
| "step conn cls (Close i) (s, socks) =
     (if i < length socks
      then (case cls (socks ! i) s of
              Inl e \<Rightarrow> Inl (Raised e)
            | Inr s' \<Rightarrow> Inr (s', take i socks @ drop (Suc i) socks))
      else Inl NoSuchSocket)"

fun run ::
  "(date \<times> date \<times> date \<Rightarrow> string option \<Rightarrow> 's \<Rightarrow> js_error + (string \<times> 's)) \<Rightarrow>
   (string \<Rightarrow> 's \<Rightarrow> js_error + 's) \<Rightarrow> event list \<Rightarrow> 's world \<Rightarrow> failure + 's world" where
  "run conn cls [] w = Inr w"
| "run conn cls (e # es) w =
     (case step conn cls e w of
        Inl f \<Rightarrow> Inl f
      | Inr w' \<Rightarrow> run conn cls es w')"

definition run_server :: "event list \<Rightarrow> failure + server world" where
  "run_server es = run on_connection on_close es (initial, [])"

definition run_docs :: "event list \<Rightarrow> failure + doc_server world" where
  "run_docs es = run on_connection_docs on_close_docs es (initial_docs, [])"

section \<open>The periodic report of \<^verbatim>\<open>server.cjs\<close>\<close>

text \<open>
  The \<^verbatim>\<open>setInterval\<close> callback (lines 120-135). Each \<^verbatim>\<open>console.log\<close> call is one line of
  the output; a line is kept as the values its template prints, in the order of the calls.
  \<^verbatim>\<open>forEach\<close> visits the rooms in the order of the map.
\<close>

datatype log_line =
  ServerStatus date
| ActiveConnectionsLine int
| ActiveRoomsLine nat
| TotalServedLine int
| RoomsDetailsHeader
| RoomDetail string int date

definition report :: "date \<Rightarrow> server \<Rightarrow> log_line list" where
  "report now s =
     (if activeConnections (connectionStats s) > 0 \<or> map_size (activeRooms s) > 0
      then [ServerStatus now,
            ActiveConnectionsLine (activeConnections (connectionStats s)),
            ActiveRoomsLine (map_size (activeRooms s)),
            TotalServedLine (totalConnections (connectionStats s))]
           @ (if map_size (activeRooms s) > 0
              then RoomsDetailsHeader #
                   map (\<lambda>(name, data). RoomDetail name (connectionCount data) (lastActivity data))
                     (activeRooms s)
              else [])
      else [])"

text \<open>The sum of the connection counts of the rooms in the table.\<close>

definition count_sum :: "(string, room) jsmap \<Rightarrow> int" where
  "count_sum m = sum_list (map (\<lambda>(name, data). connectionCount data) m)"

section \<open>Invariant of the registry\<close>

text \<open>The count stored for a room name, \<open>0\<close> when the table has no such room.\<close>

definition stored_count :: "string \<Rightarrow> (string, room) jsmap \<Rightarrow> int" where
  "stored_count k m = (case map_of m k of None \<Rightarrow> 0 | Some data \<Rightarrow> connectionCount data)"

text \<open>
  What holds between the handlers' runs: the keys of the table are unique (it is a
  \<^verbatim>\<open>Map\<close>), every room of the table counts the open sockets that captured its name and
  there is at least one, a name without a room has no open socket, and the counter of
  active connections is the sum of the rooms' counts.
\<close>

definition registry_inv :: "server world \<Rightarrow> bool" where
  "registry_inv w =
     (case w of (s, socks) \<Rightarrow>
        distinct (map fst (activeRooms s)) \<and>
        (\<forall>k. case map_of (activeRooms s) k of
               None \<Rightarrow> count_list socks k = 0
             | Some data \<Rightarrow> connectionCount data = int (count_list socks k) \<and> 0 < count_list socks k) \<and>
        activeConnections (connectionStats s) = count_sum (activeRooms s))"


section \<open>The registry inside the state of \<^verbatim>\<open>part_000\<close>\<close>

text \<open>
  The part of the state of \<^verbatim>\<open>part_000\<close> that \<^verbatim>\<open>server.cjs\<close> has too: the room table and
  the counters, without the document store.
\<close>

definition registry :: "doc_server \<Rightarrow> server" where
  "registry s = \<lparr>activeRooms = activeRooms s, connectionStats = connectionStats s\<rparr>"

definition registry_world :: "doc_server world \<Rightarrow> server world" where
  "registry_world w = (case w of (s, socks) \<Rightarrow> (registry s, socks))"

text \<open>Every open socket's room name has a document in \<^verbatim>\<open>docs\<close>.\<close>

definition docs_inv :: "doc_server world \<Rightarrow> bool" where
  "docs_inv w = (case w of (s, socks) \<Rightarrow> list_all (\<lambda>k. map_has k (docs s)) socks)"

section \<open>Properties of the map operations\<close>

lemma map_of_map_set: "map_of (map_set k v m) = (map_of m)(k \<mapsto> v)"
  by (induction m) (auto simp: fun_eq_iff)

lemma keys_map_set:
  "map fst (map_set k v m) = (if k \<in> set (map fst m) then map fst m else map fst m @ [k])"
  by (induction m) force+

lemma distinct_map_set: "distinct (map fst m) \<Longrightarrow> distinct (map fst (map_set k v m))"
  by (simp add: keys_map_set)

lemma keys_map_delete: "map fst (map_delete k m) = remove1 k (map fst m)"
  by (induction m) auto

lemma distinct_map_delete: "distinct (map fst m) \<Longrightarrow> distinct (map fst (map_delete k m))"
  by (simp add: keys_map_delete)

lemma map_of_map_delete:
  "distinct (map fst m) \<Longrightarrow> map_of (map_delete k m) = (map_of m)(k := None)"
proof (induction m)
  case Nil
  then show ?case by simp
next
  case (Cons p m)
  obtain k' v' where p: "p = (k', v')" by (cases p)
  show ?case
  proof (cases "k' = k")
    case True
    with Cons.prems p have "map_of m k = None"
      by (simp add: map_of_eq_None_iff)
    with True p show ?thesis by (auto simp: fun_eq_iff)
  next
    case False
    with Cons p show ?thesis by (auto simp: fun_eq_iff)
  qed
qed

lemma count_sum_map_set:
  "count_sum (map_set k v m) = count_sum m + connectionCount v - stored_count k m"
  by (induction m) (auto simp: count_sum_def stored_count_def)

lemma count_sum_map_delete:
  "count_sum (map_delete k m) = count_sum m - stored_count k m"
  by (induction m) (auto simp: count_sum_def stored_count_def)

lemma count_list_remove_nth:
  assumes "i < length xs"
  shows "int (count_list (take i xs @ drop (Suc i) xs) k) =
         int (count_list xs k) - (if xs ! i = k then 1 else 0)"
proof -
  have "xs = take i xs @ xs ! i # drop (Suc i) xs"
    using assms by (rule id_take_nth_drop)
  then have "count_list xs k = count_list (take i xs @ xs ! i # drop (Suc i) xs) k"
    by simp
  then show ?thesis by (simp del: append_take_drop_id)
qed

section \<open>The handlers keep the invariant\<close>

lemma on_connection_returns: "\<exists>s'. on_connection ts url s = Inr (roomName url, s')"
  by (cases ts) (simp add: on_connection_def Let_def map_has_def map_get_def map_of_map_set split: option.splits)

lemma on_connection_effect:
  assumes "on_connection ts url s = Inr (name, s')"
  shows "name = roomName url"
    and "\<exists>data. map_of (activeRooms s') = (map_of (activeRooms s))(name \<mapsto> data) \<and>
           connectionCount data = stored_count name (activeRooms s) + 1"
    and "distinct (map fst (activeRooms s)) \<Longrightarrow> distinct (map fst (activeRooms s'))"
    and "count_sum (activeRooms s') = count_sum (activeRooms s) + 1"
    and "activeConnections (connectionStats s') = activeConnections (connectionStats s) + 1"
proof -
  obtain t1 t2 t3 where ts: "ts = (t1, t2, t3)" by (cases ts)
  show n: "name = roomName url"
    using assms on_connection_returns [of ts url s] by auto
  show "\<exists>data. map_of (activeRooms s') = (map_of (activeRooms s))(name \<mapsto> data) \<and>
           connectionCount data = stored_count name (activeRooms s) + 1"
    using assms unfolding ts
    by (cases "map_of (activeRooms s) (roomName url)")
       (auto simp: on_connection_def Let_def map_has_def map_get_def map_of_map_set stored_count_def)
  show "distinct (map fst (activeRooms s)) \<Longrightarrow> distinct (map fst (activeRooms s'))"
    using assms unfolding ts
    by (cases "map_of (activeRooms s) (roomName url)")
       (auto simp: on_connection_def Let_def map_has_def map_get_def map_of_map_set distinct_map_set)
  show "count_sum (activeRooms s') = count_sum (activeRooms s) + 1"
    using assms unfolding ts
    by (cases "map_of (activeRooms s) (roomName url)")
       (auto simp: on_connection_def Let_def map_has_def map_get_def map_of_map_set
          count_sum_map_set stored_count_def)
  show "activeConnections (connectionStats s') = activeConnections (connectionStats s) + 1"
    using assms unfolding ts
    by (cases "map_of (activeRooms s) (roomName url)")
       (auto simp: on_connection_def Let_def map_has_def map_get_def map_of_map_set)
qed

lemma on_connection_inv:
  assumes inv: "registry_inv (s, socks)" and conn: "on_connection ts url s = Inr (name, s')"
  shows "registry_inv (s', socks @ [name])"
proof -
  note eff = on_connection_effect [OF conn]
  from eff(2) obtain data where
    m: "map_of (activeRooms s') = (map_of (activeRooms s))(name \<mapsto> data)" and
    c: "connectionCount data = stored_count name (activeRooms s) + 1"
    by blast
  from inv have d: "distinct (map fst (activeRooms s))"
    and cnt: "\<And>k. case map_of (activeRooms s) k of
               None \<Rightarrow> count_list socks k = 0
             | Some data \<Rightarrow> connectionCount data = int (count_list socks k) \<and> 0 < count_list socks k"
    and ac: "activeConnections (connectionStats s) = count_sum (activeRooms s)"
    by (auto simp: registry_inv_def)
  have sc: "stored_count name (activeRooms s) = int (count_list socks name)"
    using cnt [of name] by (simp add: stored_count_def split: option.splits)
  have "case map_of (activeRooms s') k of
               None \<Rightarrow> count_list (socks @ [name]) k = 0
             | Some data \<Rightarrow> connectionCount data = int (count_list (socks @ [name]) k) \<and>
                 0 < count_list (socks @ [name]) k" for k
  proof (cases "k = name")
    case True
    then show ?thesis using m c sc by simp
  next
    case False
    then show ?thesis using m cnt [of k] by (simp split: option.splits)
  qed
  then show ?thesis
    using eff(3) [OF d] eff(4) eff(5) ac by (simp add: registry_inv_def)
qed

lemma on_close_returns: "\<exists>s'. on_close name s = Inr s'"
  by (simp add: on_close_def Let_def map_has_def map_get_def split: option.splits)

lemma on_close_present:
  assumes "on_close name s = Inr s'"
    and "map_of (activeRooms s) name = Some data"
    and "distinct (map fst (activeRooms s))"
  shows "map_of (activeRooms s') =
           (if connectionCount data - 1 \<le> 0 then (map_of (activeRooms s))(name := None)
            else (map_of (activeRooms s))(name \<mapsto> data\<lparr>connectionCount := connectionCount data - 1\<rparr>))"
    and "distinct (map fst (activeRooms s'))"
    and "count_sum (activeRooms s') =
           (if connectionCount data - 1 \<le> 0 then count_sum (activeRooms s) - connectionCount data
            else count_sum (activeRooms s) - 1)"
    and "activeConnections (connectionStats s') = activeConnections (connectionStats s) - 1"
proof -
  show "map_of (activeRooms s') =
           (if connectionCount data - 1 \<le> 0 then (map_of (activeRooms s))(name := None)
            else (map_of (activeRooms s))(name \<mapsto> data\<lparr>connectionCount := connectionCount data - 1\<rparr>))"
    using assms
    by (auto simp: on_close_def Let_def map_has_def map_get_def map_of_map_set
          map_of_map_delete distinct_map_set split: if_splits)
  show "distinct (map fst (activeRooms s'))"
    using assms
    by (auto simp: on_close_def Let_def map_has_def map_get_def
          distinct_map_delete distinct_map_set split: if_splits)
  show "count_sum (activeRooms s') =
           (if connectionCount data - 1 \<le> 0 then count_sum (activeRooms s) - connectionCount data
            else count_sum (activeRooms s) - 1)"
    using assms
    by (auto simp: on_close_def Let_def map_has_def map_get_def map_of_map_set
          count_sum_map_set count_sum_map_delete stored_count_def split: if_splits)
  show "activeConnections (connectionStats s') = activeConnections (connectionStats s) - 1"
    using assms
    by (auto simp: on_close_def Let_def map_has_def map_get_def split: if_splits)
qed

lemma on_close_inv:
  assumes inv: "registry_inv (s, socks)" and i: "i < length socks"
    and cls: "on_close (socks ! i) s = Inr s'"
  shows "registry_inv (s', take i socks @ drop (Suc i) socks)"
proof -
  let ?name = "socks ! i"
  let ?socks' = "take i socks @ drop (Suc i) socks"
  from inv have d: "distinct (map fst (activeRooms s))"
    and cnt: "\<And>k. case map_of (activeRooms s) k of
               None \<Rightarrow> count_list socks k = 0
             | Some data \<Rightarrow> connectionCount data = int (count_list socks k) \<and> 0 < count_list socks k"
    and ac: "activeConnections (connectionStats s) = count_sum (activeRooms s)"
    by (auto simp: registry_inv_def)
  from i have "?name \<in> set socks" by simp
  then have "count_list socks ?name \<noteq> 0"
    by (simp only: count_list_0_iff) simp
  then have pos: "0 < count_list socks ?name"
    by simp
  with cnt [of ?name] obtain data where
    g: "map_of (activeRooms s) ?name = Some data" and
    c: "connectionCount data = int (count_list socks ?name)"
    by (auto split: option.splits)
  note eff = on_close_present [OF cls g d]
  have rem: "int (count_list ?socks' k) = int (count_list socks k) - (if ?name = k then 1 else 0)" for k
    using i by (rule count_list_remove_nth)
  have "case map_of (activeRooms s') k of
               None \<Rightarrow> count_list ?socks' k = 0
             | Some data \<Rightarrow> connectionCount data = int (count_list ?socks' k) \<and>
                 0 < count_list ?socks' k" for k
  proof (cases "k = ?name")
    case True
    show ?thesis
    proof (cases "connectionCount data - 1 \<le> 0")
      case True
      with \<open>k = ?name\<close> eff(1) c pos rem [of k] show ?thesis
        by (simp del: count_list_append)
    next
      case False
      with \<open>k = ?name\<close> eff(1) c pos rem [of k] show ?thesis
        by (simp del: count_list_append)
    qed
  next
    case False
    then have "map_of (activeRooms s') k = map_of (activeRooms s) k"
      using eff(1) by simp
    moreover have "count_list ?socks' k = count_list socks k"
      using rem [of k] False by (simp del: count_list_append)
    ultimately show ?thesis using cnt [of k]
      by (simp del: count_list_append split: option.splits)
  qed
  moreover have "activeConnections (connectionStats s') = count_sum (activeRooms s')"
    using eff(3) eff(4) ac c pos by (simp split: if_splits)
  ultimately show ?thesis
    using eff(2) by (simp add: registry_inv_def)
qed

lemma registry_inv_initial: "registry_inv (initial, [])"
  by (simp add: registry_inv_def initial_def count_sum_def)

lemma step_inv:
  assumes "registry_inv w" and "step on_connection on_close e w = Inr w'"
  shows "registry_inv w'"
proof -
  obtain s socks where w: "w = (s, socks)" by (cases w)
  show ?thesis
  proof (cases e)
    case (Connect url ts)
    with assms w show ?thesis
      by (auto split: sum.splits dest: on_connection_inv)
  next
    case (Close i)
    with assms w show ?thesis
      by (auto split: sum.splits if_splits dest: on_close_inv)
  qed
qed

lemma run_inv:
  "registry_inv w \<Longrightarrow> run on_connection on_close es w = Inr w' \<Longrightarrow> registry_inv w'"
proof (induction es arbitrary: w)
  case Nil
  then show ?case by simp
next
  case (Cons e es)
  then show ?case
    by (auto split: sum.splits dest: step_inv)
qed

lemma run_server_inv: "run_server es = Inr w \<Longrightarrow> registry_inv w"
  unfolding run_server_def using registry_inv_initial by (rule run_inv)

text \<open>No run of \<^verbatim>\<open>server.cjs\<close> ends in an exception of a handler.\<close>

lemma step_never_raises: "step on_connection on_close e w \<noteq> Inl (Raised x)"
proof (cases w)
  case (Pair s socks)
  show ?thesis
  proof (cases e)
    case (Connect url ts)
    with Pair on_connection_returns [of ts url s] show ?thesis by auto
  next
    case (Close i)
    with Pair on_close_returns [of "socks ! i" s] show ?thesis by auto
  qed
qed

lemma run_never_raises: "run on_connection on_close es w \<noteq> Inl (Raised x)"
proof (induction es arbitrary: w)
  case Nil
  show ?case by simp
next
  case (Cons e es)
  show ?case
    using step_never_raises [of e w x] Cons.IH
    by (cases "step on_connection on_close e w") auto
qed

section \<open>The handlers of \<^verbatim>\<open>part_000\<close> act on the registry as those of \<^verbatim>\<open>server.cjs\<close>\<close>

lemma registry_sel [simp]:
  "activeRooms (registry s) = activeRooms s"
  "connectionStats (registry s) = connectionStats s"
  by (simp_all add: registry_def)

lemma registry_upd [simp]:
  "registry (s\<lparr>activeRooms := m\<rparr>) = (registry s)\<lparr>activeRooms := m\<rparr>"
  "registry (s\<lparr>connectionStats := c\<rparr>) = (registry s)\<lparr>connectionStats := c\<rparr>"
  "registry (s\<lparr>docs := d\<rparr>) = registry s"
  by (simp_all add: registry_def)

lemma on_connection_docs_registry:
  "map_sum id (\<lambda>(name, s'). (name, registry s')) (on_connection_docs ts url s) =
   on_connection ts url (registry s)"
  by (cases ts)
     (simp add: on_connection_docs_def on_connection_def getYDoc_def Let_def
        split: option.splits)

lemma on_close_docs_registry:
  "map_sum id registry (on_close_docs name s) = on_close name (registry s)"
  by (simp add: on_close_docs_def on_close_def Let_def split: option.splits)

lemma step_docs_registry:
  "map_sum id registry_world (step on_connection_docs on_close_docs e w) =
   step on_connection on_close e (registry_world w)"
proof (cases w)
  case (Pair s socks)
  show ?thesis
  proof (cases e)
    case (Connect url ts)
    show ?thesis
      using on_connection_docs_registry [of ts url s]
      by (cases "on_connection_docs ts url s")
         (auto simp: Pair Connect registry_world_def split: sum.splits)
  next
    case (Close i)
    show ?thesis
      using on_close_docs_registry [of "socks ! i" s]
      by (cases "on_close_docs (socks ! i) s")
         (auto simp: Pair Close registry_world_def split: sum.splits)
  qed
qed

lemma run_docs_registry:
  "map_sum id registry_world (run on_connection_docs on_close_docs es w) =
   run on_connection on_close es (registry_world w)"
proof (induction es arbitrary: w)
  case Nil
  show ?case by simp
next
  case (Cons e es)
  show ?case
    using step_docs_registry [of e w] Cons.IH
    by (cases "step on_connection_docs on_close_docs e w") (auto split: sum.splits)
qed

section \<open>The document store only grows\<close>

lemma run_append:
  "run conn cls (es @ es') w =
     (case run conn cls es w of Inl f \<Rightarrow> Inl f | Inr w' \<Rightarrow> run conn cls es' w')"
  by (induction es arbitrary: w) (auto split: sum.splits)

lemma on_close_docs_docs: "on_close_docs name s = Inr s' \<Longrightarrow> docs s' = docs s"
  by (auto simp: on_close_docs_def Let_def split: option.splits if_splits)

lemma map_has_map_set: "map_has k (map_set k' v m) \<longleftrightarrow> k = k' \<or> map_has k m"
  by (simp add: map_has_def map_of_map_set)

lemma on_connection_docs_docs:
  assumes "on_connection_docs ts url s = Inr (name, s')"
  shows "map_has k (docs s') \<longleftrightarrow> k = name \<or> map_has k (docs s)"
proof -
  have n: "name = roomName url"
    using assms
    by (cases ts) (auto simp: on_connection_docs_def getYDoc_def Let_def split: option.splits)
  have "docs s' = (case map_of (docs s) name of
                     None \<Rightarrow> map_set name YDoc (docs s) | Some doc \<Rightarrow> docs s)"
    using assms unfolding n
    by (cases ts)
       (auto simp: on_connection_docs_def getYDoc_def Let_def map_get_def split: option.splits)
  then show ?thesis
    by (auto simp: map_has_def map_of_map_set split: option.splits)
qed

lemma step_docs_inv:
  assumes "docs_inv w" and "step on_connection_docs on_close_docs e w = Inr w'"
  shows "docs_inv w'"
proof -
  obtain s socks where w: "w = (s, socks)" by (cases w)
  show ?thesis
  proof (cases e)
    case (Connect url ts)
    with assms w show ?thesis
      by (auto simp: docs_inv_def list_all_iff on_connection_docs_docs split: sum.splits)
  next
    case (Close i)
    with assms w obtain s' where
      c: "on_close_docs (socks ! i) s = Inr s'" and
      w': "w' = (s', take i socks @ drop (Suc i) socks)"
      by (auto split: sum.splits if_splits)
    have "set (take i socks @ drop (Suc i) socks) \<subseteq> set socks"
      using set_take_subset [of i socks] set_drop_subset [of "Suc i" socks] by simp
    then show ?thesis
      using assms(1) w w' on_close_docs_docs [OF c]
      by (auto simp: docs_inv_def list_all_iff)
  qed
qed

lemma run_docs_inv:
  "docs_inv w \<Longrightarrow> run on_connection_docs on_close_docs es w = Inr w' \<Longrightarrow> docs_inv w'"
proof (induction es arbitrary: w)
  case Nil
  then show ?case by simp
next
  case (Cons e es)
  then show ?case
    by (auto split: sum.splits dest: step_docs_inv)
qed

section \<open>Room name resolution\<close>

lemmas handler_defs =
  run_server_def on_connection_def on_close_def initial_def roomName_def
  map_has_def map_get_def Let_def

text \<open>
  Claim C1. The claim wants \<^verbatim>\<open>"/alpha"\<close> resolved to \<^verbatim>\<open>"alpha"\<close>, the empty path to
  \<^verbatim>\<open>"default"\<close> and \<^verbatim>\<open>"/"\<close> to \<^verbatim>\<open>"default"\<close>. The code agrees on the first two. It tests
  the URL before it slices it, not the sliced name, so \<^verbatim>\<open>"/"\<close> is truthy and resolves to the
  empty room name, not to \<^verbatim>\<open>"default"\<close>.
\<close>

theorem roomName_examples:
  "roomName (Some ''/alpha'') = ''alpha'' \<and> roomName (Some []) = ''default'' \<and>
   roomName (Some ''/'') = [] \<and> roomName (Some ''/'') \<noteq> ''default''"
  by (simp add: roomName_def)

section \<open>Invariants of the reachable states\<close>

text \<open>
  Claim C2. In every state that a finite sequence of connection and close events reaches
  from the initial state, \<^verbatim>\<open>connectionStats.activeConnections\<close> is the sum of
  \<^verbatim>\<open>connectionCount\<close> over the rooms of \<^verbatim>\<open>activeRooms\<close>.
\<close>

theorem active_connections_sum:
  assumes "run_server es = Inr (s, socks)"
  shows "activeConnections (connectionStats s) = count_sum (activeRooms s)"
  using run_server_inv [OF assms] by (simp add: registry_inv_def)

theorem active_connections_sum_witness:
  "run_server [Connect (Some ''/docA'') (1, 1, 2), Connect (Some ''/docB'') (3, 3, 3),
               Connect (Some ''/docA'') (5, 6, 6), Close 1] =
     Inr (\<lparr>activeRooms = [(''docA'', \<lparr>createdAt = 1, connectionCount = 2, lastActivity = 6\<rparr>)],
           connectionStats = \<lparr>totalConnections = 3, activeConnections = 2, roomsCreated = 2\<rparr>\<rparr>,
          [''docA'', ''docA'']) \<and>
   activeConnections (connectionStats
      \<lparr>activeRooms = [(''docA'', \<lparr>createdAt = 1, connectionCount = 2, lastActivity = 6\<rparr>)],
       connectionStats = \<lparr>totalConnections = 3, activeConnections = 2, roomsCreated = 2\<rparr>\<rparr>) =
   count_sum [(''docA'', \<lparr>createdAt = 1, connectionCount = 2, lastActivity = 6\<rparr>)]"
proof -
  have h: "run_server [Connect (Some ''/docA'') (1, 1, 2), Connect (Some ''/docB'') (3, 3, 3),
               Connect (Some ''/docA'') (5, 6, 6), Close 1] =
     Inr (\<lparr>activeRooms = [(''docA'', \<lparr>createdAt = 1, connectionCount = 2, lastActivity = 6\<rparr>)],
           connectionStats = \<lparr>totalConnections = 3, activeConnections = 2, roomsCreated = 2\<rparr>\<rparr>,
          [''docA'', ''docA''])"
    by (simp add: handler_defs)
  show ?thesis using h active_connections_sum [OF h] by simp
qed

text \<open>
  Claim C4. In every reachable state a room name is in \<^verbatim>\<open>activeRooms\<close> if and only if at
  least one open connection belongs to it, and the \<^verbatim>\<open>connectionCount\<close> stored for a room
  of the table is that number of connections, hence strictly positive. Each handler runs
  to its end before the next event, so the states compared are those between events.
\<close>

theorem room_present_iff_connected:
  assumes "run_server es = Inr (s, socks)"
  shows "(map_has name (activeRooms s) \<longleftrightarrow> 0 < count_list socks name) \<and>
         (\<forall>data. map_get name (activeRooms s) = Some data \<longrightarrow>
            0 < connectionCount data \<and> connectionCount data = int (count_list socks name))"
proof -
  from run_server_inv [OF assms]
  have "case map_of (activeRooms s) name of
               None \<Rightarrow> count_list socks name = 0
             | Some data \<Rightarrow> connectionCount data = int (count_list socks name) \<and>
                 0 < count_list socks name"
    by (simp add: registry_inv_def)
  then show ?thesis
    by (auto simp: map_has_def map_get_def split: option.splits)
qed

theorem room_present_iff_connected_witness:
  "run_server [Connect (Some ''/docA'') (1, 1, 2), Connect (Some ''/docB'') (3, 3, 3),
               Close 1, Connect (Some ''/docA'') (5, 6, 6)] =
     Inr (\<lparr>activeRooms = [(''docA'', \<lparr>createdAt = 1, connectionCount = 2, lastActivity = 6\<rparr>)],
           connectionStats = \<lparr>totalConnections = 3, activeConnections = 2, roomsCreated = 2\<rparr>\<rparr>,
          [''docA'', ''docA'']) \<and>
   map_get ''docA'' [(''docA'', \<lparr>createdAt = 1, connectionCount = 2, lastActivity = 6\<rparr>)] =
     Some \<lparr>createdAt = 1, connectionCount = 2, lastActivity = 6\<rparr> \<and>
   map_has ''docA'' [(''docA'', \<lparr>createdAt = 1, connectionCount = 2, lastActivity = 6\<rparr>)] \<and>
   0 < count_list [''docA'', ''docA''] ''docA'' \<and>
   (0::int) < connectionCount \<lparr>createdAt = 1, connectionCount = 2, lastActivity = 6\<rparr> \<and>
   connectionCount \<lparr>createdAt = 1, connectionCount = 2, lastActivity = 6\<rparr> =
     int (count_list [''docA'', ''docA''] ''docA'')"
proof -
  have h: "run_server [Connect (Some ''/docA'') (1, 1, 2), Connect (Some ''/docB'') (3, 3, 3),
               Close 1, Connect (Some ''/docA'') (5, 6, 6)] =
     Inr (\<lparr>activeRooms = [(''docA'', \<lparr>createdAt = 1, connectionCount = 2, lastActivity = 6\<rparr>)],
           connectionStats = \<lparr>totalConnections = 3, activeConnections = 2, roomsCreated = 2\<rparr>\<rparr>,
          [''docA'', ''docA''])"
    by (simp add: handler_defs)
  have g: "map_get ''docA'' [(''docA'', \<lparr>createdAt = 1, connectionCount = 2, lastActivity = 6\<rparr>)] =
     Some \<lparr>createdAt = 1, connectionCount = 2, lastActivity = 6\<rparr>"
    by (simp add: map_get_def)
  show ?thesis
    using h g room_present_iff_connected [OF h, of "''docA''"] by simp
qed

section \<open>Scenarios\<close>

text \<open>
  Claim C5. From the initial state, after one client connects to \<^verbatim>\<open>/docA\<close> and then a
  second one does, the table holds exactly one room, \<^verbatim>\<open>docA\<close>, with \<^verbatim>\<open>connectionCount\<close> 2,
  and \<^verbatim>\<open>roomsCreated\<close> is 1, whatever the clock reads.
\<close>

theorem second_join_same_room:
  "run_server [Connect (Some ''/docA'') (t1, t2, t3), Connect (Some ''/docA'') (u1, u2, u3)] =
     Inr (\<lparr>activeRooms = [(''docA'', \<lparr>createdAt = t1, connectionCount = 2, lastActivity = u3\<rparr>)],
           connectionStats = \<lparr>totalConnections = 2, activeConnections = 2, roomsCreated = 1\<rparr>\<rparr>,
          [''docA'', ''docA''])"
  by (simp add: handler_defs)

text \<open>
  Claim C6. From the initial state, after two clients connect to \<^verbatim>\<open>/docA\<close> and both
  disconnect, in either order, the table is empty, \<^verbatim>\<open>activeConnections\<close> is 0 and
  \<^verbatim>\<open>totalConnections\<close> is still 2.
\<close>

theorem both_disconnect:
  "run_server [Connect (Some ''/docA'') ts, Connect (Some ''/docA'') us, Close 0, Close 0] =
     Inr (\<lparr>activeRooms = [],
           connectionStats = \<lparr>totalConnections = 2, activeConnections = 0, roomsCreated = 1\<rparr>\<rparr>, []) \<and>
   run_server [Connect (Some ''/docA'') ts, Connect (Some ''/docA'') us, Close 1, Close 0] =
     Inr (\<lparr>activeRooms = [],
           connectionStats = \<lparr>totalConnections = 2, activeConnections = 0, roomsCreated = 1\<rparr>\<rparr>, [])"
  by (cases ts; cases us) (simp add: handler_defs)

section \<open>Closing a connection of an unknown room\<close>

text \<open>
  Claim C7. In any state, the close handler run for a room name that is not in
  \<^verbatim>\<open>activeRooms\<close> returns without an exception and leaves the table as it was.
\<close>

theorem close_unknown_room:
  assumes "\<not> map_has name (activeRooms s)"
  shows "\<exists>s'. on_close name s = Inr s' \<and> activeRooms s' = activeRooms s"
  using assms by (simp add: on_close_def Let_def)

theorem close_unknown_room_witness:
  "\<not> map_has ''docB''
       (activeRooms \<lparr>activeRooms = [(''docA'', \<lparr>createdAt = 1, connectionCount = 1, lastActivity = 1\<rparr>)],
          connectionStats = \<lparr>totalConnections = 1, activeConnections = 1, roomsCreated = 1\<rparr>\<rparr>) \<and>
   (\<exists>s'. on_close ''docB''
            \<lparr>activeRooms = [(''docA'', \<lparr>createdAt = 1, connectionCount = 1, lastActivity = 1\<rparr>)],
             connectionStats = \<lparr>totalConnections = 1, activeConnections = 1, roomsCreated = 1\<rparr>\<rparr> = Inr s' \<and>
          activeRooms s' = [(''docA'', \<lparr>createdAt = 1, connectionCount = 1, lastActivity = 1\<rparr>)])"
proof -
  have h: "\<not> map_has ''docB''
       (activeRooms \<lparr>activeRooms = [(''docA'', \<lparr>createdAt = 1, connectionCount = 1, lastActivity = 1\<rparr>)],
          connectionStats = \<lparr>totalConnections = 1, activeConnections = 1, roomsCreated = 1\<rparr>\<rparr>)"
    by (simp add: map_has_def)
  show ?thesis using h close_unknown_room [OF h] by simp
qed

section \<open>The document store of \<^verbatim>\<open>part_000\<close>\<close>

lemmas docs_handler_defs =
  run_docs_def on_connection_docs_def on_close_docs_def getYDoc_def initial_docs_def
  roomName_def map_has_def map_get_def Let_def

text \<open>
  Claim C3, as stated: when the last connection of a room closes, the room's entry and its
  document are both removed. In \<^verbatim>\<open>part_000\<close> one client connects to \<^verbatim>\<open>/docA\<close> and closes:
  the table is empty afterwards, and \<^verbatim>\<open>docs\<close> still holds the document of \<^verbatim>\<open>docA\<close>.
\<close>

theorem last_close_document_retained:
  "run_docs [Connect (Some ''/docA'') (1, 2, 3), Close 0] =
     Inr (\<lparr>activeRooms = [],
           connectionStats = \<lparr>totalConnections = 1, activeConnections = 0, roomsCreated = 1\<rparr>,
           docs = [(''docA'', YDoc)]\<rparr>, []) \<and>
   map_has ''docA'' [(''docA'', YDoc)]"
  by (simp add: docs_handler_defs)

text \<open>
  Claim C3, amended: in every reachable state of \<^verbatim>\<open>part_000\<close>, when the only open
  connection of a room closes, the close handler returns, the room's entry is removed from
  \<^verbatim>\<open>activeRooms\<close>, and \<^verbatim>\<open>docs\<close> is left as it was, so it still holds the room's document.
\<close>

theorem last_close_keeps_document:
  assumes run: "run_docs es = Inr (s, socks)"
    and i: "i < length socks"
    and last: "count_list socks (socks ! i) = 1"
  shows "\<exists>s'. run_docs (es @ [Close i]) = Inr (s', take i socks @ drop (Suc i) socks) \<and>
           \<not> map_has (socks ! i) (activeRooms s') \<and>
           docs s' = docs s \<and> map_has (socks ! i) (docs s')"
proof -
  let ?name = "socks ! i"
  have "run_server es = Inr (registry s, socks)"
    using run_docs_registry [of es "(initial_docs, [])"] run
    by (simp add: run_docs_def run_server_def registry_world_def registry_def
          initial_docs_def initial_def)
  then have inv: "registry_inv (registry s, socks)"
    by (rule run_server_inv)
  then have d: "distinct (map fst (activeRooms s))"
    and cnt: "case map_of (activeRooms s) ?name of
               None \<Rightarrow> count_list socks ?name = 0
             | Some data \<Rightarrow> connectionCount data = int (count_list socks ?name) \<and>
                 0 < count_list socks ?name"
    by (simp_all add: registry_inv_def)
  from cnt last obtain data where
    g: "map_of (activeRooms s) ?name = Some data" and c: "connectionCount data = 1"
    by (auto split: option.splits)
  obtain t where t: "on_close ?name (registry s) = Inr t"
    using on_close_returns by blast
  with on_close_docs_registry [of ?name s]
  obtain s' where s': "on_close_docs ?name s = Inr s'" and r: "registry s' = t"
    by (cases "on_close_docs ?name s") auto
  have "map_of (activeRooms t) = (map_of (activeRooms (registry s)))(?name := None)"
    using on_close_present(1) [OF t, of data] g d c by simp
  then have gone: "\<not> map_has ?name (activeRooms s')"
    using r by (auto simp: map_has_def)
  have same: "docs s' = docs s"
    using s' by (rule on_close_docs_docs)
  have "docs_inv (s, socks)"
    using run_docs_inv [of "(initial_docs, [])" es "(s, socks)"] run
    by (simp add: run_docs_def docs_inv_def)
  then have "map_has ?name (docs s)"
    using i by (simp add: docs_inv_def list_all_length)
  moreover have "run_docs (es @ [Close i]) = Inr (s', take i socks @ drop (Suc i) socks)"
    using run i s' by (simp add: run_docs_def run_append)
  ultimately show ?thesis using gone same by simp
qed

theorem last_close_keeps_document_witness:
  "run_docs [Connect (Some ''/docA'') (1, 2, 3), Connect (Some ''/docB'') (4, 5, 6)] =
     Inr (\<lparr>activeRooms = [(''docA'', \<lparr>createdAt = 1, connectionCount = 1, lastActivity = 3\<rparr>),
                          (''docB'', \<lparr>createdAt = 4, connectionCount = 1, lastActivity = 6\<rparr>)],
           connectionStats = \<lparr>totalConnections = 2, activeConnections = 2, roomsCreated = 2\<rparr>,
           docs = [(''docA'', YDoc), (''docB'', YDoc)]\<rparr>, [''docA'', ''docB'']) \<and>
   (1::nat) < length [''docA'', ''docB''] \<and>
   count_list [''docA'', ''docB''] ([''docA'', ''docB''] ! 1) = 1 \<and>
   (\<exists>s'. run_docs ([Connect (Some ''/docA'') (1, 2, 3), Connect (Some ''/docB'') (4, 5, 6)]
                     @ [Close 1]) = Inr (s', [''docA'']) \<and>
           \<not> map_has ''docB'' (activeRooms s') \<and>
           docs s' = [(''docA'', YDoc), (''docB'', YDoc)] \<and> map_has ''docB'' (docs s'))"
proof -
  have h: "run_docs [Connect (Some ''/docA'') (1, 2, 3), Connect (Some ''/docB'') (4, 5, 6)] =
     Inr (\<lparr>activeRooms = [(''docA'', \<lparr>createdAt = 1, connectionCount = 1, lastActivity = 3\<rparr>),
                          (''docB'', \<lparr>createdAt = 4, connectionCount = 1, lastActivity = 6\<rparr>)],
           connectionStats = \<lparr>totalConnections = 2, activeConnections = 2, roomsCreated = 2\<rparr>,
           docs = [(''docA'', YDoc), (''docB'', YDoc)]\<rparr>, [''docA'', ''docB''])"
    by (simp add: docs_handler_defs)
  have i: "(1::nat) < length [''docA'', ''docB'']"
    by simp
  have l: "count_list [''docA'', ''docB''] ([''docA'', ''docB''] ! 1) = 1"
    by simp
  show ?thesis
    using h i l last_close_keeps_document [OF h i l] by simp
qed

section \<open>The periodic report\<close>

text \<open>
  Claim C8. In every reachable state a tick of the reporter prints nothing exactly when
  \<^verbatim>\<open>activeConnections\<close> is 0 and \<^verbatim>\<open>activeRooms\<close> is empty; and for every room of the table
  the output has a line with the room's name and its \<^verbatim>\<open>connectionCount\<close>.
\<close>

theorem report_silent_iff:
  assumes "run_server es = Inr (s, socks)"
  shows "(report now s = [] \<longleftrightarrow>
            activeConnections (connectionStats s) = 0 \<and> activeRooms s = []) \<and>
         (\<forall>name data. (name, data) \<in> set (activeRooms s) \<longrightarrow>
            RoomDetail name (connectionCount data) (lastActivity data) \<in> set (report now s))"
proof -
  have ac: "activeConnections (connectionStats s) = count_sum (activeRooms s)"
    using run_server_inv [OF assms] by (simp add: registry_inv_def)
  have "report now s = [] \<longleftrightarrow>
          activeConnections (connectionStats s) = 0 \<and> activeRooms s = []"
    using ac by (auto simp: report_def map_size_def count_sum_def)
  moreover have "RoomDetail name (connectionCount data) (lastActivity data) \<in> set (report now s)"
    if "(name, data) \<in> set (activeRooms s)" for name data
  proof -
    from that have "activeRooms s \<noteq> []" by auto
    with that show ?thesis
      by (force simp: report_def map_size_def)
  qed
  ultimately show ?thesis by blast
qed

theorem report_silent_iff_witness:
  "run_server [Connect (Some ''/docA'') (1, 2, 3)] =
     Inr (\<lparr>activeRooms = [(''docA'', \<lparr>createdAt = 1, connectionCount = 1, lastActivity = 3\<rparr>)],
           connectionStats = \<lparr>totalConnections = 1, activeConnections = 1, roomsCreated = 1\<rparr>\<rparr>,
          [''docA'']) \<and>
   (''docA'', \<lparr>createdAt = 1, connectionCount = 1, lastActivity = 3\<rparr>) \<in>
     set [(''docA'', \<lparr>createdAt = 1, connectionCount = 1, lastActivity = 3\<rparr>)] \<and>
   report 9 \<lparr>activeRooms = [(''docA'', \<lparr>createdAt = 1, connectionCount = 1, lastActivity = 3\<rparr>)],
             connectionStats = \<lparr>totalConnections = 1, activeConnections = 1, roomsCreated = 1\<rparr>\<rparr> \<noteq> [] \<and>
   RoomDetail ''docA'' 1 3 \<in>
     set (report 9 \<lparr>activeRooms = [(''docA'', \<lparr>createdAt = 1, connectionCount = 1, lastActivity = 3\<rparr>)],
             connectionStats = \<lparr>totalConnections = 1, activeConnections = 1, roomsCreated = 1\<rparr>\<rparr>)"
proof -
  have h: "run_server [Connect (Some ''/docA'') (1, 2, 3)] =
     Inr (\<lparr>activeRooms = [(''docA'', \<lparr>createdAt = 1, connectionCount = 1, lastActivity = 3\<rparr>)],
           connectionStats = \<lparr>totalConnections = 1, activeConnections = 1, roomsCreated = 1\<rparr>\<rparr>,
          [''docA''])"
    by (simp add: handler_defs)
  show ?thesis
    using h report_silent_iff [OF h, of 9] by simp
qed

section \<open>The query string is part of the room name\<close>

text \<open>
  Claim C9. For a request URL \<open>p\<close> that is not empty, the room name is \<open>p\<close> without its
  first character, and nothing else is cut: the URL \<open>p\<close> followed by \<^verbatim>\<open>?\<close> and a query
  string \<open>q\<close> names another room. After one connection with each of the two URLs the table
  has two rooms with one connection each.
\<close>

theorem query_string_in_room_key:
  assumes "p \<noteq> []"
  shows "roomName (Some p) = drop 1 p \<and>
         roomName (Some (p @ CHR ''?'' # q)) = drop 1 p @ CHR ''?'' # q \<and>
         run_server [Connect (Some p) (t1, t2, t3), Connect (Some (p @ CHR ''?'' # q)) (u1, u2, u3)] =
           Inr (\<lparr>activeRooms =
                   [(drop 1 p, \<lparr>createdAt = t1, connectionCount = 1, lastActivity = t3\<rparr>),
                    (drop 1 p @ CHR ''?'' # q, \<lparr>createdAt = u1, connectionCount = 1, lastActivity = u3\<rparr>)],
                 connectionStats = \<lparr>totalConnections = 2, activeConnections = 2, roomsCreated = 2\<rparr>\<rparr>,
                [drop 1 p, drop 1 p @ CHR ''?'' # q])"
proof -
  have a: "roomName (Some p) = drop 1 p"
    using assms by (simp add: roomName_def)
  have b: "roomName (Some (p @ CHR ''?'' # q)) = drop 1 p @ CHR ''?'' # q"
    using assms by (cases p) (simp_all add: roomName_def)
  have ne: "drop 1 p \<noteq> drop 1 p @ CHR ''?'' # q"
    by simp
  show ?thesis
    using ne by (simp add: a b run_server_def on_connection_def on_close_def initial_def
        map_has_def map_get_def Let_def)
qed

theorem query_string_in_room_key_witness:
  "''/docA'' \<noteq> [] \<and>
   roomName (Some ''/docA'') = ''docA'' \<and>
   roomName (Some ''/docA?token=1'') = ''docA?token=1'' \<and>
   run_server [Connect (Some ''/docA'') (1, 2, 3), Connect (Some ''/docA?token=1'') (4, 5, 6)] =
     Inr (\<lparr>activeRooms =
             [(''docA'', \<lparr>createdAt = 1, connectionCount = 1, lastActivity = 3\<rparr>),
              (''docA?token=1'', \<lparr>createdAt = 4, connectionCount = 1, lastActivity = 6\<rparr>)],
           connectionStats = \<lparr>totalConnections = 2, activeConnections = 2, roomsCreated = 2\<rparr>\<rparr>,
          [''docA'', ''docA?token=1''])"
proof -
  have h: "''/docA'' \<noteq> []" by simp
  show ?thesis
    using h query_string_in_room_key [OF h, of "''token=1''" 1 2 3 4 5 6] by simp
qed

section \<open>The two variants\<close>

text \<open>
  Claim C10. For every finite sequence of connection and close events, with the same
  request URLs and the same clock readings, the handlers of \<^verbatim>\<open>part_000\<close> and those of
  \<^verbatim>\<open>server.cjs\<close> end alike, and when they return, \<^verbatim>\<open>activeRooms\<close> and
  \<^verbatim>\<open>connectionStats\<close> of the one equal those of the other, as do the open sockets.
\<close>

theorem variants_agree:
  "map_sum id registry_world (run_docs es) = run_server es"
  using run_docs_registry [of es "(initial_docs, [])"]
  by (simp add: run_docs_def run_server_def registry_world_def registry_def initial_docs_def initial_def)

end
